theory Spec2Isabelle
  imports Main "HOL-Library.Word"
begin

section \<open>Fragmented MP4 atoms and the two box parsers\<close>

text \<open>
  An \<open>MP4Atom\<close> (streaming/hksvHelpers.ts) carries the raw 8-byte header, the payload
  length, the type tag and the payload. Buffers are lists of bytes. The fields
  \<open>length\<close> and \<open>type\<close> of the source are called \<open>atom_length\<close> and \<open>atom_type\<close> here.
\<close>

type_synonym byte = "8 word"
type_synonym Buffer = "byte list"

record MP4Atom =
  header :: Buffer
  atom_length :: int
  atom_type :: string
  data :: Buffer

text \<open>
  What ends a read or a parse. \<open>StreamEnded n\<close> is the rejection
  \<open>stream ended during read for minimum n bytes\<close> of \<open>readLength\<close>; \<open>NeverServed n\<close>
  stands for a read of a negative length \<open>n\<close> that is left pending for ever;
  \<open>SizeOutOfRange n\<close> is the range error the stream's \<open>read\<close> throws for a size above
  1 GiB; \<open>InvalidBox\<close> is the \<open>Invalid MP4 box\<close> error of the recording generator;
  \<open>OutOfRange\<close> is the range error of \<open>readInt32BE\<close> on a buffer shorter than four
  bytes; \<open>StdoutUnavailable\<close> is the generator's \<open>FFmpeg stdout unavailable\<close>.
\<close>

datatype error =
  StreamEnded int | NeverServed int | SizeOutOfRange int | InvalidBox int string
  | OutOfRange | StdoutUnavailable

text \<open>The largest size the stream's \<open>read\<close> accepts, 1 GiB (\<open>0x40000000\<close>).\<close>

definition MAX_HWM :: int where
  "MAX_HWM = 1073741824"

text \<open>
  \<open>readLength readable n\<close>: the readable is the list of bytes that arrive before the
  source ends, and the result is the buffer returned and the bytes left unread. The
  function hands on what the stream's \<open>read(n)\<close> returns:
  \<^item> a length of 0 returns the empty buffer at once (\<open>!length\<close>);
  \<^item> a size above 1 GiB makes \<open>read\<close> throw its range error;
  \<^item> \<open>read\<close> returns nothing for a negative size, so such a read is rejected by the
    \<open>end\<close> event when the stream has ended with nothing left unread, and is never
    settled while unread bytes remain (\<open>end\<close> is not emitted before they are read);
  \<^item> a positive size is served in full when that many bytes arrive; when the source
    ends first, \<open>read\<close> returns the shorter remainder, and with nothing left the
    promise is rejected by the \<open>end\<close> event.
\<close>

definition readLength :: "Buffer \<Rightarrow> int \<Rightarrow> error + (Buffer \<times> Buffer)" where
  "readLength readable n =
     (if n = 0 then Inr ([], readable)
      else if n > MAX_HWM then Inl (SizeOutOfRange n)
      else if n < 0 then (if readable = [] then Inl (StreamEnded n) else Inl (NeverServed n))
      else if readable = [] then Inl (StreamEnded n)
      else Inr (take (nat n) readable, drop (nat n) readable))"

text \<open>\<open>header.readInt32BE(0)\<close>: the first four bytes as a signed big-endian 32-bit integer.\<close>

fun readInt32BE :: "Buffer \<Rightarrow> int option" where
  "readInt32BE (b0 # b1 # b2 # b3 # rest) =
     Some (sint (word_of_int (uint b0 * 2 ^ 24 + uint b1 * 2 ^ 16 + uint b2 * 2 ^ 8 + uint b3) :: 32 word))"
| "readInt32BE _ = None"

text \<open>
  \<open>header.slice(4).toString()\<close>: the bytes from offset 4 as text. Each byte is taken as
  one character; the source compares the result only with ASCII tags, which a byte
  sequence equals exactly when it is that tag's bytes. (A header cut short by the end
  of the source gives a shorter tag.)
\<close>

definition toString :: "Buffer \<Rightarrow> string" where
  "toString b = map (\<lambda>x. char_of (unat x)) b"

text \<open>
  \<open>parseFragmentedMP4\<close> (hksvHelpers.ts): the lazy atom sequence, as the list of atoms
  yielded and the failed read at which the sequence stops. The loop has no exit of its
  own.
\<close>

function parseFragmentedMP4 :: "Buffer \<Rightarrow> MP4Atom list \<times> error" where
  "parseFragmentedMP4 readable =
     (case readLength readable 8 of
        Inl e \<Rightarrow> ([], e)
      | Inr (hdr, rest) \<Rightarrow>
          (case readInt32BE hdr of
             None \<Rightarrow> ([], OutOfRange)
           | Some v \<Rightarrow>
               (case readLength rest (v - 8) of
                  Inl e \<Rightarrow> ([], e)
                | Inr (payload, rest') \<Rightarrow>
                    (let r = parseFragmentedMP4 rest'
                     in (\<lparr>header = hdr, atom_length = v - 8,
                          atom_type = toString (drop 4 hdr), data = payload\<rparr> # fst r, snd r)))))"
  by pat_completeness auto
termination
  by (relation "measure length") (auto simp: readLength_def split: if_splits)

text \<open>
  How the recording generator ends: by throwing, or by \<open>break\<close> (a normal return) when
  the error arrives after the process was killed intentionally.
\<close>

datatype gen_end = Thrown error | Broke

definition on_error :: "bool \<Rightarrow> error \<Rightarrow> gen_end" where
  "on_error processKilledIntentionally e = (if \<not> processKilledIntentionally then Thrown e else Broke)"

text \<open>
  The generator of \<open>startFFMPegFragmentedMP4Session\<close> (recordingDelegate.ts) over the
  bytes of the subprocess's stdout. \<open>processKilledIntentionally\<close> is the flag as it
  stands when the error is caught; the generator ends at its first error, so no other
  value of the flag is read.
\<close>

function generator_loop :: "bool \<Rightarrow> Buffer \<Rightarrow> MP4Atom list \<times> gen_end" where
  "generator_loop killed stdout =
     (case readLength stdout 8 of
        Inl e \<Rightarrow> ([], on_error killed e)
      | Inr (hdr, rest) \<Rightarrow>
          (case readInt32BE hdr of
             None \<Rightarrow> ([], on_error killed OutOfRange)
           | Some v \<Rightarrow>
               (if v - 8 < 0 \<or> v - 8 > 50 * 1024 * 1024
                  then ([], on_error killed (InvalidBox (v - 8) (toString (drop 4 hdr))))
                else
                  (case readLength rest (v - 8) of
                     Inl e \<Rightarrow> ([], on_error killed e)
                   | Inr (payload, rest') \<Rightarrow>
                       (let r = generator_loop killed rest'
                        in (\<lparr>header = hdr, atom_length = v - 8,
                             atom_type = toString (drop 4 hdr), data = payload\<rparr> # fst r, snd r))))))"
  by pat_completeness auto
termination
  by (relation "measure (\<lambda>(k, s). length s)") (auto simp: readLength_def split: if_splits)

definition generator :: "bool \<Rightarrow> Buffer option \<Rightarrow> MP4Atom list \<times> gen_end" where
  "generator killed stdout =
     (case stdout of
        None \<Rightarrow> ([], Thrown StdoutUnavailable)
      | Some s \<Rightarrow> generator_loop killed s)"

section \<open>Recording: fragment composition and the recording stream\<close>

text \<open>
  The loop of \<open>handleFragmentsRequests\<close> (recordingDelegate.ts) over the boxes the
  generator yields, with its three variables \<open>pending\<close>, \<open>isFirstFragment\<close> and
  \<open>moofBuffer\<close> (\<open>None\<close> is \<open>null\<close>). The result is the list of buffers yielded.
\<close>

fun fragments_loop :: "Buffer list \<Rightarrow> bool \<Rightarrow> Buffer option \<Rightarrow> MP4Atom list \<Rightarrow> Buffer list" where
  "fragments_loop pending isFirstFragment moofBuffer [] = []"
| "fragments_loop pending isFirstFragment moofBuffer (box # boxes) =
     (let pending' = pending @ [header box, data box]
      in if isFirstFragment then
           (if atom_type box = ''moov''
              then concat pending' # fragments_loop [] False moofBuffer boxes
            else fragments_loop pending' True moofBuffer boxes)
         else if atom_type box = ''moof''
           then fragments_loop pending' False (Some (header box @ data box)) boxes
         else
           (case moofBuffer of
              Some moof \<Rightarrow>
                (if atom_type box = ''mdat''
                   then (moof @ header box @ data box) # fragments_loop pending' False None boxes
                 else fragments_loop pending' False moofBuffer boxes)
            | None \<Rightarrow> fragments_loop pending' False moofBuffer boxes))"

text \<open>
  What \<open>handleFragmentsRequests\<close> reads: whether the prebuffer is the input
  (\<open>videoConfig.prebuffer\<close> and a \<open>PreBuffer\<close> object), the configured
  \<open>videoConfig.source\<close>, whether the subprocess spawned, the bytes of its stdout and the
  flag \<open>processKilledIntentionally\<close>.
\<close>

datatype start_error = NoVideoSource | NoVideoSourceForRecording | SessionStartupFailed

record FragmentsInput =
  usePrebuffer :: bool
  source :: "string option"
  spawned :: bool
  processKilledIntentionally :: bool
  stdout :: "Buffer option"

definition isSpace :: "char \<Rightarrow> bool" where
  "isSpace c = (c \<in> set [CHR '' '', CHR 0x09, CHR 0x0A, CHR 0x0B, CHR 0x0C, CHR 0x0D])"

text \<open>
  \<open>source.trim().split(/\s+/).filter((arg) => arg.length > 0)\<close>, on ASCII white space.
  With the prebuffer as input the arguments are those \<open>getVideo\<close> returns (the port
  number of the address is left out here).
\<close>

fun splitArgs :: "string \<Rightarrow> string \<Rightarrow> string list" where
  "splitArgs cur [] = (if cur = [] then [] else [cur])"
| "splitArgs cur (c # cs) =
     (if isSpace c then (if cur = [] then splitArgs [] cs else cur # splitArgs [] cs)
      else splitArgs (cur @ [c]) cs)"

definition ffmpegInput :: "FragmentsInput \<Rightarrow> start_error + string list" where
  "ffmpegInput i =
     (if usePrebuffer i then Inr [''-f'', ''mp4'', ''-i'', ''tcp://127.0.0.1'']
      else
        (case source i of
           None \<Rightarrow> Inl NoVideoSource
         | Some s \<Rightarrow> (if s = [] then Inl NoVideoSource else Inr (splitArgs [] s))))"

text \<open>
  \<open>handleFragmentsRequests\<close>: either an error thrown before anything is yielded, or
  the buffers yielded. An error that ends the generator is caught inside the loop
  (\<open>Recording completed\<close>), so the function then returns normally.
\<close>

definition handleFragmentsRequests :: "FragmentsInput \<Rightarrow> start_error + Buffer list" where
  "handleFragmentsRequests i =
     (case ffmpegInput i of
        Inl e \<Rightarrow> Inl e
      | Inr args \<Rightarrow>
          (if length args = 0 then Inl NoVideoSourceForRecording
           else if \<not> spawned i then Inl SessionStartupFailed
           else Inr (fragments_loop [] True None
                       (fst (generator (processKilledIntentionally i) (stdout i))))))"

record RecordingPacket =
  packet_data :: Buffer
  isLast :: bool

text \<open>
  \<open>handleRecordingStreamRequest\<close>: \<open>configuration\<close> says whether a recording
  configuration has been set; \<open>abortedAt = Some k\<close> says that the abort signal is found
  set when buffer number \<open>k\<close> (counted from 0) arrives, \<open>None\<close> that it is never set. The
  result is the list of packets yielded.
\<close>

definition untilAbort :: "nat option \<Rightarrow> 'a list \<Rightarrow> 'a list" where
  "untilAbort abortedAt xs = (case abortedAt of None \<Rightarrow> xs | Some k \<Rightarrow> take k xs)"

definition handleRecordingStreamRequest ::
  "bool \<Rightarrow> nat option \<Rightarrow> FragmentsInput \<Rightarrow> RecordingPacket list" where
  "handleRecordingStreamRequest configuration abortedAt i =
     (if \<not> configuration then []
      else
        (case handleFragmentsRequests i of
           Inl e \<Rightarrow> [\<lparr>packet_data = [], isLast = True\<rparr>]
         | Inr fragments \<Rightarrow>
             map (\<lambda>fragmentBuffer. \<lparr>packet_data = fragmentBuffer, isLast = False\<rparr>)
               (untilAbort abortedAt fragments)))"

section \<open>The prebuffer\<close>

text \<open>
  The \<open>PreBuffer\<close> object (streaming/prebuffer.ts). \<open>None\<close> is an unset \<open>ftyp\<close> or
  \<open>moov\<close>. The event emitter is the list of subscriber sockets whose \<open>writeAtom\<close>
  listens for \<open>atom\<close> and the list of those whose \<open>cleanup\<close> waits for \<open>killed\<close>;
  \<open>written\<close> gives, per subscriber socket, the buffers written to it, in order.
\<close>

record PrebufferFmp4 =
  atom :: MP4Atom
  time :: int

record PreBuffer =
  prebufferFmp4 :: "PrebufferFmp4 list"
  released :: bool
  ftyp :: "MP4Atom option"
  moov :: "MP4Atom option"
  idrInterval :: int
  prevIdr :: int
  atomListeners :: "nat list"
  killedListeners :: "nat list"
  written :: "nat \<Rightarrow> Buffer list"

definition DEFAULT_PREBUFFER_DURATION :: int where
  "DEFAULT_PREBUFFER_DURATION = 15000"

definition newPreBuffer :: PreBuffer where
  "newPreBuffer =
     \<lparr>prebufferFmp4 = [], released = False, ftyp = None, moov = None, idrInterval = 0,
      prevIdr = 0, atomListeners = [], killedListeners = [], written = (\<lambda>s. [])\<rparr>"

text \<open>\<open>writeAtom\<close>: one write of header and payload together.\<close>

definition atomBytes :: "MP4Atom \<Rightarrow> Buffer" where
  "atomBytes a = header a @ data a"

definition writeAtom :: "nat \<Rightarrow> MP4Atom \<Rightarrow> PreBuffer \<Rightarrow> PreBuffer" where
  "writeAtom socket a pb = pb\<lparr>written := (written pb)(socket := written pb socket @ [atomBytes a])\<rparr>"

text \<open>\<open>events.emit('atom', atom)\<close>: every listener writes the atom, in registration order.\<close>

fun emitAtom :: "nat list \<Rightarrow> MP4Atom \<Rightarrow> PreBuffer \<Rightarrow> PreBuffer" where
  "emitAtom [] a pb = pb"
| "emitAtom (socket # sockets) a pb = emitAtom sockets a (writeAtom socket a pb)"

text \<open>The eviction loop: shift while the head is older than the bound.\<close>

fun evict :: "int \<Rightarrow> PrebufferFmp4 list \<Rightarrow> PrebufferFmp4 list" where
  "evict bound [] = []"
| "evict bound (p # ps) = (if time p < bound then evict bound ps else p # ps)"

text \<open>
  The initialization segments and the append of one iteration of the ingestion loop
  of \<open>startPreBuffer\<close>.
\<close>

definition storeAtom :: "MP4Atom \<Rightarrow> int \<Rightarrow> PreBuffer \<Rightarrow> PreBuffer" where
  "storeAtom a now pb =
     (if ftyp pb = None then pb\<lparr>ftyp := Some a\<rparr>
      else if moov pb = None then pb\<lparr>moov := Some a\<rparr>
      else
        (let pb' =
               (if atom_type a = ''mdat''
                  then pb\<lparr>idrInterval := (if prevIdr pb \<noteq> 0 then now - prevIdr pb else idrInterval pb),
                          prevIdr := now\<rparr>
                else pb)
         in pb'\<lparr>prebufferFmp4 := prebufferFmp4 pb' @ [\<lparr>atom = a, time = now\<rparr>]\<rparr>))"

text \<open>One iteration of the ingestion loop: the atom parsed and \<open>Date.now()\<close> at its arrival.\<close>

definition ingest :: "PreBuffer \<Rightarrow> MP4Atom \<times> int \<Rightarrow> PreBuffer" where
  "ingest pb arrival =
     (let a = fst arrival; now = snd arrival;
          pb1 = storeAtom a now pb;
          pb2 = pb1\<lparr>prebufferFmp4 := evict (now - DEFAULT_PREBUFFER_DURATION) (prebufferFmp4 pb1)\<rparr>
      in emitAtom (atomListeners pb2) a pb2)"

text \<open>The ingestion loop over the atoms that arrive, each with its observation time.\<close>

definition ingestAll :: "PreBuffer \<Rightarrow> (MP4Atom \<times> int) list \<Rightarrow> PreBuffer" where
  "ingestAll pb arrivals = foldl ingest pb arrivals"

text \<open>
  The loop of \<open>getVideo\<close> over the retained fragments, with its flag \<open>needMoof\<close>; the
  result is the list of atoms written.
\<close>

fun sendPrebuffered :: "int \<Rightarrow> bool \<Rightarrow> PrebufferFmp4 list \<Rightarrow> MP4Atom list" where
  "sendPrebuffered bound needMoof [] = []"
| "sendPrebuffered bound needMoof (prebuffer # rest) =
     (if time prebuffer < bound then sendPrebuffered bound needMoof rest
      else if needMoof \<and> atom_type (atom prebuffer) \<noteq> ''moof'' then sendPrebuffered bound needMoof rest
      else atom prebuffer # sendPrebuffered bound False rest)"

text \<open>
  The atoms \<open>getVideo\<close>'s connection handler writes when a consumer connects at time
  \<open>now\<close>: the initialization segments that are set, then the prebuffered fragments.
\<close>

definition getVideoAtoms :: "PreBuffer \<Rightarrow> int \<Rightarrow> int \<Rightarrow> MP4Atom list" where
  "getVideoAtoms pb requestedPrebuffer now =
     (case ftyp pb of None \<Rightarrow> [] | Some f \<Rightarrow> [f]) @
     (case moov pb of None \<Rightarrow> [] | Some m \<Rightarrow> [m]) @
     sendPrebuffered (now - requestedPrebuffer) True (prebufferFmp4 pb)"

fun writeAtoms :: "nat \<Rightarrow> MP4Atom list \<Rightarrow> PreBuffer \<Rightarrow> PreBuffer" where
  "writeAtoms socket [] pb = pb"
| "writeAtoms socket (a # as) pb = writeAtoms socket as (writeAtom socket a pb)"

text \<open>
  The connection handler of \<open>getVideo\<close> for the consumer's socket: the writes above,
  then the two registrations.
\<close>

definition getVideo :: "PreBuffer \<Rightarrow> nat \<Rightarrow> int \<Rightarrow> int \<Rightarrow> PreBuffer" where
  "getVideo pb socket requestedPrebuffer now =
     (let pb' = writeAtoms socket (getVideoAtoms pb requestedPrebuffer now) pb
      in pb'\<lparr>atomListeners := atomListeners pb' @ [socket],
             killedListeners := killedListeners pb' @ [socket]\<rparr>)"

text \<open>\<open>cleanup\<close> of one subscriber: its two listeners are removed.\<close>

definition cleanup :: "nat \<Rightarrow> PreBuffer \<Rightarrow> PreBuffer" where
  "cleanup socket pb =
     pb\<lparr>atomListeners := remove1 socket (atomListeners pb),
        killedListeners := remove1 socket (killedListeners pb)\<rparr>"

fun emitKilled :: "nat list \<Rightarrow> PreBuffer \<Rightarrow> PreBuffer" where
  "emitKilled [] pb = pb"
| "emitKilled (socket # sockets) pb = emitKilled sockets (cleanup socket pb)"

text \<open>\<open>stop\<close>: emit \<open>killed\<close>, then set \<open>released\<close>.\<close>

definition stop :: "PreBuffer \<Rightarrow> PreBuffer" where
  "stop pb = (emitKilled (killedListeners pb) pb)\<lparr>released := True\<rparr>"






section \<open>The event stream parser\<close>

text \<open>
  \<open>DahuaEvents\<close> (dahua/events.ts): the text buffer and the registry of listeners, a map
  from channel id to the callbacks registered for it, in order. A callback is named by
  a number.
\<close>

record DahuaEvents =
  buffer :: string
  listeners :: "int \<Rightarrow> nat list option"
  debug :: bool

record MotionEvent =
  channel :: int
  eventType :: string
  active :: bool

definition stripPrefix :: "string \<Rightarrow> string \<Rightarrow> string option" where
  "stripPrefix p s = (if take (length p) s = p then Some (drop (length p) s) else None)"

definition isDigit :: "char \<Rightarrow> bool" where
  "isDigit c = (c \<in> set ''0123456789'')"

definition notSemicolon :: "char \<Rightarrow> bool" where
  "notSemicolon c = (c \<noteq> CHR '';'')"

text \<open>
  One attempt of \<open>/Code=([^;]+);action=([^;]+);index=(\d+)/\<close> at the start of the text:
  the three groups and the text after the match. A group \<open>[^;]+\<close> is followed by a
  semicolon in the pattern, so only its longest run can match; \<open>\d+\<close> is greedy.
\<close>

definition matchEvent :: "string \<Rightarrow> (string \<times> string \<times> string \<times> string) option" where
  "matchEvent s =
     (case stripPrefix ''Code='' s of
        None \<Rightarrow> None
      | Some s1 \<Rightarrow>
          (if takeWhile notSemicolon s1 = [] then None
           else
             (case stripPrefix '';action='' (dropWhile notSemicolon s1) of
                None \<Rightarrow> None
              | Some s2 \<Rightarrow>
                  (if takeWhile notSemicolon s2 = [] then None
                   else
                     (case stripPrefix '';index='' (dropWhile notSemicolon s2) of
                        None \<Rightarrow> None
                      | Some s3 \<Rightarrow>
                          (if takeWhile isDigit s3 = [] then None
                           else Some (takeWhile notSemicolon s1, takeWhile notSemicolon s2,
                                      takeWhile isDigit s3, dropWhile isDigit s3)))))))"

text \<open>
  The loop \<open>while ((match = eventRegex.exec(this.buffer)) !== null)\<close> with the global
  flag: the leftmost match from the current position, then on from the end of that match.
\<close>

function execAll :: "string \<Rightarrow> (string \<times> string \<times> string) list" where
  "execAll s =
     (if s = [] then []
      else
        (case matchEvent s of
           Some (t, a, d, rest) \<Rightarrow> (t, a, d) # execAll rest
         | None \<Rightarrow> execAll (tl s)))"
  by pat_completeness auto
termination
proof (relation "measure length")
  show "wf (measure length)" by simp
next
  fix s :: string and x2 t x2a a x2b d rest
  assume "s \<noteq> []" and m: "matchEvent s = Some x2"
    and "(t, x2a) = x2" "(a, x2b) = x2a" "(d, rest) = x2b"
  then have "matchEvent s = Some (t, a, d, rest)" by simp
  then obtain s1 s2 s3 where
    s1: "stripPrefix ''Code='' s = Some s1" and
    s2: "stripPrefix '';action='' (dropWhile notSemicolon s1) = Some s2" and
    s3: "stripPrefix '';index='' (dropWhile notSemicolon s2) = Some s3" and
    r: "rest = dropWhile isDigit s3"
    unfolding matchEvent_def
    by (simp split: option.splits if_splits)
  have stripped: "length r + length p = length u" if "stripPrefix p u = Some r" for p u r
  proof -
    from that have t: "take (length p) u = p" and r: "r = drop (length p) u"
      by (auto simp: stripPrefix_def split: if_splits)
    have "length (take (length p) u) = length p"
      by (simp only: t)
    then have "length p \<le> length u"
      by simp
    with r show ?thesis
      by simp
  qed
  have l1: "length s1 < length s"
    using stripped [OF s1] by simp
  have l2: "length s2 \<le> length (dropWhile notSemicolon s1)"
    using stripped [OF s2] by simp
  have l3: "length s3 \<le> length (dropWhile notSemicolon s2)"
    using stripped [OF s3] by simp
  have "length rest \<le> length s3"
    unfolding r by (rule length_dropWhile_le)
  moreover have "length (dropWhile notSemicolon s1) \<le> length s1"
    by (rule length_dropWhile_le)
  moreover have "length (dropWhile notSemicolon s2) \<le> length s2"
    by (rule length_dropWhile_le)
  ultimately have "length rest < length s"
    using l1 l2 l3 by linarith
  then show "(rest, s) \<in> measure length" by simp
next
  fix s :: string
  assume "s \<noteq> []" "matchEvent s = None"
  then show "(tl s, s) \<in> measure length" by (cases s) auto
qed

text \<open>
  \<open>parseInt(digits, 10)\<close> on a run of decimal digits (the source's numbers are exact up
  to \<open>2^53\<close>; channel indices are far below).
\<close>

definition digitValue :: "char \<Rightarrow> int" where
  "digitValue c = int (of_char c) - 48"

definition parseInt :: "string \<Rightarrow> int" where
  "parseInt digits = foldl (\<lambda>n c. 10 * n + digitValue c) 0 digits"

text \<open>\<open>toLowerCase\<close> on ASCII letters.\<close>

definition lowerChar :: "char \<Rightarrow> char" where
  "lowerChar c =
     (if 65 \<le> (of_char c :: nat) \<and> (of_char c :: nat) \<le> 90 then char_of ((of_char c :: nat) + 32) else c)"

definition toLowerCase :: "string \<Rightarrow> string" where
  "toLowerCase s = map lowerChar s"

definition dahuaMotionEvents :: "string list" where
  "dahuaMotionEvents = [''VideoMotion'', ''CrossLineDetection'', ''CrossRegionDetection'', ''AlarmLocal'']"

text \<open>
  \<open>notifyListeners\<close>: the callbacks called, in order, each with the three values of the
  event. An exception thrown by a callback is caught and the loop goes on. A channel
  without an entry in the registry has nothing called.
\<close>

definition notifyListeners :: "DahuaEvents \<Rightarrow> int \<Rightarrow> string \<Rightarrow> bool \<Rightarrow> (nat \<times> MotionEvent) list" where
  "notifyListeners ev channelId ty act =
     (case listeners ev channelId of
        Some callbacks \<Rightarrow> map (\<lambda>callback. (callback, \<lparr>channel = channelId, eventType = ty, active = act\<rparr>)) callbacks
      | None \<Rightarrow> [])"

text \<open>
  \<open>parseEvent\<close>: the motion events handed to \<open>notifyListeners\<close> (none or one), and the
  callback calls made.
\<close>

definition parseEvent ::
  "DahuaEvents \<Rightarrow> string \<Rightarrow> string \<Rightarrow> int \<Rightarrow> MotionEvent list \<times> (nat \<times> MotionEvent) list" where
  "parseEvent ev ty action channelIndex =
     (let channelId = channelIndex + 1;
          act = (toLowerCase action = ''start'')
      in if ty \<notin> set dahuaMotionEvents then ([], [])
         else ([\<lparr>channel = channelId, eventType = ty, active = act\<rparr>],
               notifyListeners ev channelId ty act))"

text \<open>\<open>indexOf\<close> and \<open>lastIndexOf\<close>; \<open>None\<close> is the source's \<open>-1\<close>.\<close>

fun indexOf :: "string \<Rightarrow> string \<Rightarrow> nat option" where
  "indexOf pat [] = (if pat = [] then Some 0 else None)"
| "indexOf pat (c # cs) =
     (if take (length pat) (c # cs) = pat then Some 0 else map_option Suc (indexOf pat cs))"

definition indexOfFrom :: "string \<Rightarrow> string \<Rightarrow> nat \<Rightarrow> nat option" where
  "indexOfFrom pat s from = map_option (\<lambda>j. j + from) (indexOf pat (drop from s))"

definition lastIndexOf :: "string \<Rightarrow> string \<Rightarrow> nat option" where
  "lastIndexOf pat s =
     map_option (\<lambda>j. length s - length pat - j) (indexOf (rev pat) (rev s))"

text \<open>The trimming of the buffer after the scan, and the safety cap.\<close>

definition trimBuffer :: "string \<Rightarrow> string" where
  "trimBuffer b =
     (case lastIndexOf ''index='' b of
        None \<Rightarrow> b
      | Some lastMatch \<Rightarrow>
          (let nextBoundary = indexOfFrom ''--'' b lastMatch;
               nextNewline = indexOfFrom [CHR 0x0A] b lastMatch;
               cutPoint =
                 (case nextBoundary of
                    Some x \<Rightarrow> (case nextNewline of Some y \<Rightarrow> Some (min x y) | None \<Rightarrow> Some x)
                  | None \<Rightarrow> nextNewline)
           in (case cutPoint of
                 Some c \<Rightarrow> (if c > lastMatch then drop c b else b)
               | None \<Rightarrow> b)))"

definition capBuffer :: "string \<Rightarrow> string" where
  "capBuffer b = (if length b > 100000 then [] else b)"

text \<open>
  \<open>handleChunk\<close>: the new state, the motion events dispatched and the callback calls
  made, in order.
\<close>

definition handleChunk ::
  "DahuaEvents \<Rightarrow> string \<Rightarrow> DahuaEvents \<times> MotionEvent list \<times> (nat \<times> MotionEvent) list" where
  "handleChunk ev chunk =
     (let b = buffer ev @ chunk;
          results = map (\<lambda>(ty, action, digits). parseEvent ev ty action (parseInt digits)) (execAll b)
      in (ev\<lparr>buffer := capBuffer (trimBuffer b)\<rparr>,
          concat (map fst results), concat (map snd results)))"

text \<open>
  A new \<open>DahuaEvents\<close> object has an empty buffer and an empty registry; \<open>onMotion\<close>
  fills the registry.
\<close>

definition newDahuaEvents :: DahuaEvents where
  "newDahuaEvents = \<lparr>buffer = [], listeners = Map.empty, debug = False\<rparr>"

definition onMotion :: "DahuaEvents \<Rightarrow> int \<Rightarrow> nat \<Rightarrow> DahuaEvents" where
  "onMotion ev channelId callback =
     ev\<lparr>listeners := (listeners ev)(channelId \<mapsto>
           (case listeners ev channelId of None \<Rightarrow> [] | Some callbacks \<Rightarrow> callbacks) @ [callback])\<rparr>"

section \<open>Resolution negotiation\<close>

text \<open>
  The fields of \<open>videoConfig\<close> that \<open>determineResolution\<close> (streaming delegate) reads for
  the width and height; \<open>None\<close> is an unset option. The constants
  \<open>HOMEKIT_MAX_WIDTH\<close> and \<open>HOMEKIT_MAX_HEIGHT\<close> are declared in a settings module that
  is not part of the sources at hand, so they are parameters here.
\<close>

record VideoConfig =
  maxWidth :: "int option"
  maxHeight :: "int option"
  resolutionMode :: "string option"
  customWidth :: "int option"
  customHeight :: "int option"

record VideoInfo =
  width :: int
  height :: int

record ResolutionInfo =
  res_width :: int
  res_height :: int

text \<open>\<open>x || d\<close> on an optional number: an unset value and 0 give \<open>d\<close>.\<close>

definition orElse :: "int option \<Rightarrow> int \<Rightarrow> int" where
  "orElse x d = (case x of None \<Rightarrow> d | Some v \<Rightarrow> (if v = 0 then d else v))"

text \<open>
  \<open>customWidth && customHeight\<close>: the custom dimensions when both are set and not 0,
  \<open>None\<close> otherwise.
\<close>

definition customDimensions :: "VideoConfig \<Rightarrow> (int \<times> int) option" where
  "customDimensions cfg =
     (case customWidth cfg of
        None \<Rightarrow> None
      | Some w \<Rightarrow>
          (case customHeight cfg of
             None \<Rightarrow> None
           | Some h \<Rightarrow> (if w \<noteq> 0 \<and> h \<noteq> 0 then Some (w, h) else None)))"

definition effectiveMaxWidth :: "int \<Rightarrow> VideoConfig \<Rightarrow> int" where
  "effectiveMaxWidth HOMEKIT_MAX_WIDTH cfg = min (orElse (maxWidth cfg) HOMEKIT_MAX_WIDTH) HOMEKIT_MAX_WIDTH"

definition effectiveMaxHeight :: "int \<Rightarrow> VideoConfig \<Rightarrow> int" where
  "effectiveMaxHeight HOMEKIT_MAX_HEIGHT cfg = min (orElse (maxHeight cfg) HOMEKIT_MAX_HEIGHT) HOMEKIT_MAX_HEIGHT"

text \<open>\<open>this.videoConfig.resolutionMode || 'adaptive'\<close>.\<close>

definition effectiveMode :: "VideoConfig \<Rightarrow> string" where
  "effectiveMode cfg =
     (case resolutionMode cfg of None \<Rightarrow> ''adaptive'' | Some m \<Rightarrow> (if m = [] then ''adaptive'' else m))"

text \<open>
  The width and height \<open>determineResolution\<close> returns (the filter strings it also
  builds are left out).
\<close>

definition determineResolution ::
  "int \<Rightarrow> int \<Rightarrow> VideoConfig \<Rightarrow> VideoInfo \<Rightarrow> bool \<Rightarrow> ResolutionInfo" where
  "determineResolution HOMEKIT_MAX_WIDTH HOMEKIT_MAX_HEIGHT cfg request isSnapshot =
     (let maxW = effectiveMaxWidth HOMEKIT_MAX_WIDTH cfg;
          maxH = effectiveMaxHeight HOMEKIT_MAX_HEIGHT cfg;
          mode = effectiveMode cfg;
          requested =
            (if \<not> isSnapshot \<and> mode \<noteq> ''adaptive'' then
               (if mode = ''force-max'' then (maxW, maxH)
                else if mode = ''force-custom'' then
                  (case customDimensions cfg of
                     Some custom \<Rightarrow> custom
                   | None \<Rightarrow> (width request, height request))
                else (width request, height request))
             else (width request, height request));
          requestedWidth = (if fst requested > maxW then maxW else fst requested);
          requestedHeight = (if snd requested > maxH then maxH else snd requested)
      in \<lparr>res_width = requestedWidth, res_height = requestedHeight\<rparr>)"

section \<open>Example inputs\<close>

text \<open>
  Well-formed atoms with a one-byte payload each (the header's length field is 9), and
  the byte stream of a short recording.
\<close>

definition ex_ftyp :: MP4Atom where
  "ex_ftyp = \<lparr>header = [0, 0, 0, 9, 0x66, 0x74, 0x79, 0x70], atom_length = 1,
               atom_type = ''ftyp'', data = [1]\<rparr>"

definition ex_moov :: MP4Atom where
  "ex_moov = \<lparr>header = [0, 0, 0, 9, 0x6D, 0x6F, 0x6F, 0x76], atom_length = 1,
               atom_type = ''moov'', data = [2]\<rparr>"

definition ex_moof :: MP4Atom where
  "ex_moof = \<lparr>header = [0, 0, 0, 9, 0x6D, 0x6F, 0x6F, 0x66], atom_length = 1,
               atom_type = ''moof'', data = [3]\<rparr>"

definition ex_mdat :: MP4Atom where
  "ex_mdat = \<lparr>header = [0, 0, 0, 9, 0x6D, 0x64, 0x61, 0x74], atom_length = 1,
               atom_type = ''mdat'', data = [4]\<rparr>"

definition ex_free :: MP4Atom where
  "ex_free = \<lparr>header = [0, 0, 0, 9, 0x66, 0x72, 0x65, 0x65], atom_length = 1,
               atom_type = ''free'', data = [5]\<rparr>"

definition ex_moof2 :: MP4Atom where
  "ex_moof2 = \<lparr>header = [0, 0, 0, 9, 0x6D, 0x6F, 0x6F, 0x66], atom_length = 1,
                atom_type = ''moof'', data = [6]\<rparr>"

definition ex_mdat2 :: MP4Atom where
  "ex_mdat2 = \<lparr>header = [0, 0, 0, 9, 0x6D, 0x64, 0x61, 0x74], atom_length = 1,
                atom_type = ''mdat'', data = [7]\<rparr>"

definition ex_stream :: Buffer where
  "ex_stream = concat (map atomBytes [ex_ftyp, ex_moov, ex_moof, ex_mdat])"

text \<open>
  A recording whose source is configured and whose subprocess spawns and writes
  \<open>ex_stream\<close> before its stdout ends.
\<close>

definition ex_input :: FragmentsInput where
  "ex_input = \<lparr>usePrebuffer = False, source = Some ''-i rtsp://camera/stream'', spawned = True,
                processKilledIntentionally = False, stdout = Some ex_stream\<rparr>"

text \<open>
  Eight arrivals with their observation times, and the prebuffer that has ingested them.
\<close>

definition ex_arrivals :: "(MP4Atom \<times> int) list" where
  "ex_arrivals =
     [(ex_ftyp, 1000), (ex_moov, 1001), (ex_moof, 2000), (ex_mdat, 2001),
      (ex_moof, 6990), (ex_mdat, 7001), (ex_moof2, 9000), (ex_mdat2, 9001)]"

definition ex_prebuffer :: PreBuffer where
  "ex_prebuffer = ingestAll newPreBuffer ex_arrivals"

text \<open>
  Arrivals whose observation times step back (the system clock was set back between
  two readings), and the prebuffers that have ingested them.
\<close>

definition ex_stepped_arrivals :: "(MP4Atom \<times> int) list" where
  "ex_stepped_arrivals =
     [(ex_ftyp, 0), (ex_moov, 0), (ex_moof, 20000), (ex_mdat, 1000), (ex_moof2, 30000)]"

definition ex_stepped_prebuffer :: PreBuffer where
  "ex_stepped_prebuffer =
     ingestAll newPreBuffer [(ex_ftyp, 1000), (ex_moov, 1001), (ex_moof, 9000), (ex_mdat, 5000)]"

text \<open>
  An event parser with callbacks 0 and 1 registered for channel 5, in this order, and
  callback 3 for channel 2.
\<close>

definition ex_events :: DahuaEvents where
  "ex_events = onMotion (onMotion (onMotion newDahuaEvents 5 0) 2 3) 5 1"

section \<open>The composition and the invariant to be shown\<close>

text \<open>
  The composition the specification describes: the atoms up to and including the first
  \<open>moov\<close> make the initialization fragment; after it, every \<open>moof\<close> whose next atom is
  an \<open>mdat\<close> makes a media fragment with that \<open>mdat\<close>.
\<close>

definition notMoov :: "MP4Atom \<Rightarrow> bool" where
  "notMoov a = (atom_type a \<noteq> ''moov'')"

definition isMoofOrMdat :: "MP4Atom \<Rightarrow> bool" where
  "isMoofOrMdat a = (atom_type a = ''moof'' \<or> atom_type a = ''mdat'')"

definition mediaFragments :: "MP4Atom list \<Rightarrow> Buffer list" where
  "mediaFragments xs =
     map (\<lambda>(a, b). atomBytes a @ atomBytes b)
       (filter (\<lambda>(a, b). atom_type a = ''moof'' \<and> atom_type b = ''mdat'') (zip xs (tl xs)))"

definition composedFragments :: "MP4Atom list \<Rightarrow> Buffer list" where
  "composedFragments atoms =
     (case dropWhile notMoov atoms of
        [] \<Rightarrow> []
      | m # rest \<Rightarrow> concat (map atomBytes (takeWhile notMoov atoms @ [m])) # mediaFragments rest)"

text \<open>
  The invariant of the ingestion loop: the retained fragments are in time order and
  none is later than the last observation time \<open>t\<close>.
\<close>

definition retained_ok :: "PreBuffer \<Rightarrow> int \<Rightarrow> bool" where
  "retained_ok pb t =
     (sorted (map time (prebufferFmp4 pb)) \<and> list_all (\<lambda>p. time p \<le> t) (prebufferFmp4 pb))"

section \<open>Properties of the box parsers\<close>

text \<open>Both parsers read the stream back into its four atoms and end when it ends.\<close>

lemma parseFragmentedMP4_ex_stream:
  "parseFragmentedMP4 ex_stream = ([ex_ftyp, ex_moov, ex_moof, ex_mdat], StreamEnded 8)"
  by code_simp

lemma generator_ex_stream:
  "generator False (Some ex_stream)
     = ([ex_ftyp, ex_moov, ex_moof, ex_mdat], Thrown (StreamEnded 8))"
  by code_simp

text \<open>
  No input makes \<open>parseFragmentedMP4\<close> end with the invalid-box error, while the
  recording generator ends with it at the first header whose payload length is negative
  or above 50 MiB.
\<close>

lemma parseFragmentedMP4_never_InvalidBox:
  "snd (parseFragmentedMP4 readable) \<noteq> InvalidBox n ty"
proof (induction readable rule: parseFragmentedMP4.induct)
  case (1 readable)
  show ?case
  proof (cases "readLength readable 8")
    case (Inl e)
    then have "e \<noteq> InvalidBox n ty"
      by (auto simp: readLength_def split: if_splits)
    with Inl show ?thesis
      by (subst parseFragmentedMP4.simps) simp
  next
    case (Inr hr)
    obtain hdr rest where hr: "hr = (hdr, rest)" by (cases hr)
    show ?thesis
    proof (cases "readInt32BE hdr")
      case None
      with Inr hr show ?thesis
        by (subst parseFragmentedMP4.simps) simp
    next
      case (Some v)
      show ?thesis
      proof (cases "readLength rest (v - 8)")
        case (Inl e)
        then have "e \<noteq> InvalidBox n ty"
          by (auto simp: readLength_def split: if_splits)
        with Inl Inr hr Some show ?thesis
          by (subst parseFragmentedMP4.simps) simp
      next
        case (Inr pr)
        obtain payload rest' where pr: "pr = (payload, rest')" by (cases pr)
        from "1.IH" [OF \<open>readLength readable 8 = Inr hr\<close> hr [symmetric] Some Inr pr [symmetric]]
        have "snd (parseFragmentedMP4 rest') \<noteq> InvalidBox n ty" .
        with Inr pr \<open>readLength readable 8 = Inr hr\<close> hr Some show ?thesis
          by (subst parseFragmentedMP4.simps) (simp add: Let_def)
      qed
    qed
  qed
qed

lemma generator_loop_rejects_invalid_length:
  assumes "readLength out 8 = Inr (hdr, rest)" and "readInt32BE hdr = Some v"
    and "v - 8 < 0 \<or> v - 8 > 50 * 1024 * 1024"
  shows "generator_loop False out = ([], Thrown (InvalidBox (v - 8) (toString (drop 4 hdr))))"
  using assms by (subst generator_loop.simps) (simp add: on_error_def)

text \<open>
  C1 does not hold of \<open>parseFragmentedMP4\<close>. A header whose length field is 4 gives the
  payload length -4. The recording generator rejects it with its invalid-box error.
  \<open>parseFragmentedMP4\<close> has no such check: it calls \<open>readLength\<close> with -4, a read
  that is left pending with the following boxes unread, so the sequence yields nothing
  more and raises no error.
\<close>

theorem parseFragmentedMP4_no_length_check:
  "parseFragmentedMP4 ([0, 0, 0, 4, 0x66, 0x72, 0x65, 0x65] @ ex_stream) = ([], NeverServed (- 4))
   \<and> generator False (Some ([0, 0, 0, 4, 0x66, 0x72, 0x65, 0x65] @ ex_stream))
       = ([], Thrown (InvalidBox (- 4) ''free''))"
  by code_simp

section \<open>Properties of the recording stream\<close>

lemma mediaFragments_Nil: "mediaFragments [] = []"
  by (simp add: mediaFragments_def)

lemma mediaFragments_single: "mediaFragments [x] = []"
  by (simp add: mediaFragments_def)

lemma mediaFragments_Cons2:
  "mediaFragments (x # y # ys) =
     (if atom_type x = ''moof'' \<and> atom_type y = ''mdat'' then [atomBytes x @ atomBytes y] else [])
     @ mediaFragments (y # ys)"
  by (simp add: mediaFragments_def)

lemma mediaFragments_not_moof_first:
  "atom_type x \<noteq> ''moof'' \<Longrightarrow> mediaFragments (x # ys) = mediaFragments ys"
  by (cases ys) (simp_all add: mediaFragments_single mediaFragments_Nil mediaFragments_Cons2)

text \<open>
  After the initialization fragment the loop depends on \<open>moofBuffer\<close> only: with a
  \<open>moof\<close> held it behaves as if that \<open>moof\<close> came first.
\<close>

lemma fragments_loop_media:
  "fragments_loop pending False None xs = mediaFragments (filter isMoofOrMdat xs)
   \<and> (atom_type a0 = ''moof'' \<longrightarrow>
        fragments_loop pending False (Some (atomBytes a0)) xs
          = mediaFragments (a0 # filter isMoofOrMdat xs))"
proof (induction xs arbitrary: pending a0)
  case Nil
  then show ?case by (simp add: mediaFragments_Nil mediaFragments_single)
next
  case (Cons x xs)
  let ?p = "pending @ [header x, data x]"
  consider (moof) "atom_type x = ''moof''" | (mdat) "atom_type x = ''mdat''"
    | (other) "atom_type x \<noteq> ''moof''" "atom_type x \<noteq> ''mdat''" by blast
  then show ?case
  proof cases
    case moof
    have ih: "fragments_loop ?p False (Some (atomBytes x)) xs
        = mediaFragments (x # filter isMoofOrMdat xs)"
      using moof Cons.IH [of ?p x] by simp
    have n: "fragments_loop pending False None (x # xs)
        = fragments_loop ?p False (Some (atomBytes x)) xs"
      using moof by (simp add: Let_def atomBytes_def)
    have s: "fragments_loop pending False (Some (atomBytes a0)) (x # xs)
        = fragments_loop ?p False (Some (atomBytes x)) xs"
      using moof by (simp add: Let_def atomBytes_def)
    have f: "filter isMoofOrMdat (x # xs) = x # filter isMoofOrMdat xs"
      using moof by (simp add: isMoofOrMdat_def)
    have c: "mediaFragments (a0 # x # filter isMoofOrMdat xs)
        = mediaFragments (x # filter isMoofOrMdat xs)"
      using moof by (simp add: mediaFragments_Cons2)
    show ?thesis
      unfolding f n s c ih by simp
  next
    case mdat
    have ih: "fragments_loop ?p False None xs = mediaFragments (filter isMoofOrMdat xs)"
      using Cons.IH [of ?p x] by simp
    have n: "fragments_loop pending False None (x # xs) = fragments_loop ?p False None xs"
      using mdat by (simp add: Let_def)
    have s: "fragments_loop pending False (Some (atomBytes a0)) (x # xs)
        = (atomBytes a0 @ atomBytes x) # fragments_loop ?p False None xs"
      using mdat by (simp add: Let_def atomBytes_def)
    have f: "filter isMoofOrMdat (x # xs) = x # filter isMoofOrMdat xs"
      using mdat by (simp add: isMoofOrMdat_def)
    have m: "mediaFragments (x # filter isMoofOrMdat xs) = mediaFragments (filter isMoofOrMdat xs)"
      using mdat by (simp add: mediaFragments_not_moof_first)
    have c: "atom_type a0 = ''moof'' \<Longrightarrow> mediaFragments (a0 # x # filter isMoofOrMdat xs)
        = (atomBytes a0 @ atomBytes x) # mediaFragments (filter isMoofOrMdat xs)"
      using mdat m by (simp add: mediaFragments_Cons2)
    show ?thesis
      unfolding f n s ih using m c by simp
  next
    case other
    have ih1: "fragments_loop ?p False None xs = mediaFragments (filter isMoofOrMdat xs)"
      using Cons.IH [of ?p a0] by simp
    have ih2: "atom_type a0 = ''moof'' \<Longrightarrow>
        fragments_loop ?p False (Some (atomBytes a0)) xs
          = mediaFragments (a0 # filter isMoofOrMdat xs)"
      using Cons.IH [of ?p a0] by simp
    have n: "fragments_loop pending False None (x # xs) = fragments_loop ?p False None xs"
      using other by (simp add: Let_def)
    have s: "fragments_loop pending False (Some (atomBytes a0)) (x # xs)
        = fragments_loop ?p False (Some (atomBytes a0)) xs"
      using other by (simp add: Let_def)
    have f: "filter isMoofOrMdat (x # xs) = filter isMoofOrMdat xs"
      using other by (simp add: isMoofOrMdat_def)
    show ?thesis
      unfolding f n s ih1 using ih2 by simp
  qed
qed

lemma fragments_loop_first:
  "fragments_loop pending True None atoms =
     (case dropWhile notMoov atoms of
        [] \<Rightarrow> []
      | m # rest \<Rightarrow>
          (concat pending @ concat (map atomBytes (takeWhile notMoov atoms @ [m])))
            # mediaFragments (filter isMoofOrMdat rest))"
proof (induction atoms arbitrary: pending)
  case Nil
  then show ?case by simp
next
  case (Cons x xs)
  let ?p = "pending @ [header x, data x]"
  have cp: "concat ?p = concat pending @ atomBytes x"
    by (simp add: atomBytes_def)
  show ?case
  proof (cases "atom_type x = ''moov''")
    case True
    then have nm: "\<not> notMoov x" by (simp add: notMoov_def)
    have l: "fragments_loop pending True None (x # xs) = concat ?p # fragments_loop [] False None xs"
      using True by (simp add: Let_def)
    have d: "dropWhile notMoov (x # xs) = x # xs" and t: "takeWhile notMoov (x # xs) = []"
      using nm by simp_all
    show ?thesis
      unfolding l d t cp using fragments_loop_media [of "[]" xs] by simp
  next
    case False
    then have nm: "notMoov x" by (simp add: notMoov_def)
    have l: "fragments_loop pending True None (x # xs) = fragments_loop ?p True None xs"
      using False by (simp add: Let_def)
    have d: "dropWhile notMoov (x # xs) = dropWhile notMoov xs"
      and t: "takeWhile notMoov (x # xs) = x # takeWhile notMoov xs"
      using nm by simp_all
    show ?thesis
    proof (cases "dropWhile notMoov xs")
      case Nil
      show ?thesis
        unfolding l d t Cons.IH [of ?p] cp Nil by simp
    next
      case (Cons m rest)
      show ?thesis
        unfolding l d t Cons.IH [of ?p] cp Cons by simp
    qed
  qed
qed

text \<open>
  C2. Once started, \<open>handleFragmentsRequests\<close> yields \<open>fragments_loop [] True None atoms\<close>
  for the boxes \<open>atoms\<close> its generator yields. For every sequence \<open>atoms\<close>, the first
  buffer is the initialization fragment:
  header and payload of every atom up to and including the first \<open>moov\<close> (nothing is
  yielded when there is no \<open>moov\<close>). The loop looks at \<open>moof\<close> and \<open>mdat\<close> atoms only
  after that: every later buffer is a \<open>moof\<close>, header and payload, followed by the
  header and payload of the \<open>mdat\<close> that comes next among them, and a \<open>moof\<close> followed
  by another \<open>moof\<close> yields nothing. When only \<open>moof\<close> and \<open>mdat\<close> atoms follow the
  \<open>moov\<close>, as in the transcoder's fragmented output, this is the stated composition:
  each \<open>moof\<close> with the \<open>mdat\<close> immediately after it.
\<close>

theorem handleFragmentsRequests_composition:
  "fragments_loop [] True None atoms =
     (case dropWhile notMoov atoms of
        [] \<Rightarrow> []
      | m # rest \<Rightarrow> concat (map atomBytes (takeWhile notMoov atoms @ [m]))
                      # mediaFragments (filter isMoofOrMdat rest))
   \<and> ((\<forall>a \<in> set (drop 1 (dropWhile notMoov atoms)). isMoofOrMdat a) \<longrightarrow>
        fragments_loop [] True None atoms = composedFragments atoms)
   \<and> (handleFragmentsRequests i = Inr fragments \<longrightarrow>
        fragments = fragments_loop [] True None
                      (fst (generator (processKilledIntentionally i) (stdout i))))"
proof -
  have started: "handleFragmentsRequests i = Inr fragments \<longrightarrow>
        fragments = fragments_loop [] True None
                      (fst (generator (processKilledIntentionally i) (stdout i)))"
    by (auto simp: handleFragmentsRequests_def split: sum.splits if_splits)
  show ?thesis
  proof (cases "dropWhile notMoov atoms")
    case Nil
    show ?thesis
      unfolding fragments_loop_first [of "[]" atoms] composedFragments_def Nil
      using started by simp
  next
    case (Cons m rest)
    have "filter isMoofOrMdat rest = rest" if "\<forall>a \<in> set rest. isMoofOrMdat a"
      using that by (simp add: filter_id_conv)
    then show ?thesis
      unfolding fragments_loop_first [of "[]" atoms] composedFragments_def Cons
      using started by simp
  qed
qed

theorem handleFragmentsRequests_composition_witness:
  "fragments_loop [] True None [ex_ftyp, ex_moov, ex_moof, ex_moof2, ex_mdat, ex_mdat2, ex_moof, ex_mdat2]
     = [atomBytes ex_ftyp @ atomBytes ex_moov,
        atomBytes ex_moof2 @ atomBytes ex_mdat,
        atomBytes ex_moof @ atomBytes ex_mdat2]
   \<and> composedFragments [ex_ftyp, ex_moov, ex_moof, ex_moof2, ex_mdat, ex_mdat2, ex_moof, ex_mdat2]
     = [atomBytes ex_ftyp @ atomBytes ex_moov,
        atomBytes ex_moof2 @ atomBytes ex_mdat,
        atomBytes ex_moof @ atomBytes ex_mdat2]
   \<and> handleFragmentsRequests ex_input
     = Inr [atomBytes ex_ftyp @ atomBytes ex_moov, atomBytes ex_moof @ atomBytes ex_mdat]"
proof -
  let ?atoms = "[ex_ftyp, ex_moov, ex_moof, ex_moof2, ex_mdat, ex_mdat2, ex_moof, ex_mdat2]"
  have only: "\<forall>a \<in> set (drop 1 (dropWhile notMoov ?atoms)). isMoofOrMdat a"
    by code_simp
  have spec: "composedFragments ?atoms
     = [atomBytes ex_ftyp @ atomBytes ex_moov,
        atomBytes ex_moof2 @ atomBytes ex_mdat,
        atomBytes ex_moof @ atomBytes ex_mdat2]"
    by code_simp
  have started: "handleFragmentsRequests ex_input
     = Inr [atomBytes ex_ftyp @ atomBytes ex_moov, atomBytes ex_moof @ atomBytes ex_mdat]"
    by code_simp
  have "fragments_loop [] True None ?atoms = composedFragments ?atoms"
    using handleFragmentsRequests_composition [of ?atoms] only by blast
  with spec started show ?thesis
    by (simp only:)
qed

text \<open>
  An atom of another type between a \<open>moof\<close> and an \<open>mdat\<close> is passed over: the \<open>moof\<close>
  is kept and paired with that \<open>mdat\<close>.
\<close>

lemma fragments_loop_passes_over_other_atoms:
  "fragments_loop [] True None [ex_ftyp, ex_moov, ex_moof, ex_free, ex_mdat]
     = [atomBytes ex_ftyp @ atomBytes ex_moov, atomBytes ex_moof @ atomBytes ex_mdat]"
  by code_simp

text \<open>Once \<open>handleFragmentsRequests\<close> has started, no packet it leads to is marked last.\<close>

lemma handleRecordingStreamRequest_started_no_marker:
  assumes "handleFragmentsRequests i = Inr fragments"
  shows "list_all (\<lambda>packet. \<not> isLast packet) (handleRecordingStreamRequest configuration abortedAt i)"
  using assms by (simp add: handleRecordingStreamRequest_def list_all_iff)

text \<open>
  C6 does not hold at a normal stream end. The recording of \<open>ex_input\<close> runs to the end
  of the subprocess's output: two packets are yielded, neither marked last, and no
  final marker follows. The marker, an empty buffer with \<open>isLast\<close> set, is yielded only
  when \<open>handleFragmentsRequests\<close> throws, as when the subprocess fails to spawn. Without
  a recording configuration the function returns at once and yields nothing.
\<close>

theorem handleRecordingStreamRequest_normal_end_without_marker:
  "handleRecordingStreamRequest True None ex_input =
     [\<lparr>packet_data = atomBytes ex_ftyp @ atomBytes ex_moov, isLast = False\<rparr>,
      \<lparr>packet_data = atomBytes ex_moof @ atomBytes ex_mdat, isLast = False\<rparr>]
   \<and> handleRecordingStreamRequest True None (ex_input\<lparr>spawned := False\<rparr>)
       = [\<lparr>packet_data = [], isLast = True\<rparr>]
   \<and> handleRecordingStreamRequest False None ex_input = []"
  by code_simp

section \<open>Properties of the prebuffer\<close>

text \<open>
  A broadcast writes the atom once per registration of the socket, and the connection
  handler of \<open>getVideo\<close> registers the socket whether or not \<open>stop\<close> came before.
\<close>

lemma writeAtom_other:
  "written (writeAtom s a pb) socket
     = (if s = socket then written pb socket @ [atomBytes a] else written pb socket)"
  by (simp add: writeAtom_def)

lemma written_emitAtom:
  "written (emitAtom sockets a pb) socket
     = written pb socket @ replicate (count_list sockets socket) (atomBytes a)"
  by (induction sockets arbitrary: pb) (simp_all add: writeAtom_other replicate_app_Cons_same)

lemma atomListeners_writeAtoms: "atomListeners (writeAtoms socket as pb) = atomListeners pb"
  by (induction as arbitrary: pb) (simp_all add: writeAtom_def)

lemma getVideo_registers_after_stop:
  "socket \<in> set (atomListeners (getVideo (stop pb) socket requestedPrebuffer now))"
  by (simp add: getVideo_def Let_def)

lemma atomListeners_ingest_pre:
  "atomListeners (storeAtom a now pb) = atomListeners pb"
  by (simp add: storeAtom_def Let_def)

lemma written_storeAtom:
  "written (storeAtom a now pb) = written pb"
  by (simp add: storeAtom_def Let_def)

lemma written_ingest:
  "written (ingest pb (a, now)) socket
     = written pb socket @ replicate (count_list (atomListeners pb) socket) (atomBytes a)"
  by (simp add: ingest_def Let_def atomListeners_ingest_pre written_emitAtom written_storeAtom)

lemma live_atom_after_stop:
  "\<exists>n. written (ingest (getVideo (stop pb) socket requestedPrebuffer now) (a, now')) socket
     = written (getVideo (stop pb) socket requestedPrebuffer now) socket
       @ replicate (Suc n) (atomBytes a)"
proof -
  let ?pb = "getVideo (stop pb) socket requestedPrebuffer now"
  have "socket \<in> set (atomListeners ?pb)"
    by (rule getVideo_registers_after_stop)
  then have "count_list (atomListeners ?pb) socket \<noteq> 0"
    by (simp add: count_list_0_iff)
  then obtain n where "count_list (atomListeners ?pb) socket = Suc n"
    by (cases "count_list (atomListeners ?pb) socket") simp_all
  then show ?thesis
    using written_ingest [of ?pb a now' socket] by (intro exI [of _ n]) simp
qed

text \<open>
  C3 does not hold. After \<open>stop\<close> the prebuffer is marked released, but \<open>getVideo\<close> does
  not read the mark: a consumer that connects afterwards (socket 7) is registered for
  \<open>atom\<close>, and the next atom the ingestion loop broadcasts is written to it.
\<close>

theorem getVideo_after_stop_receives_live_atoms:
  "released (stop ex_prebuffer)
   \<and> atomListeners (getVideo (stop ex_prebuffer) 7 5000 12000) = [7]
   \<and> written (ingest (getVideo (stop ex_prebuffer) 7 5000 12000) (ex_moof, 12500)) 7
       = written (getVideo (stop ex_prebuffer) 7 5000 12000) 7 @ [atomBytes ex_moof]"
  by code_simp

lemma prebufferFmp4_emitAtom: "prebufferFmp4 (emitAtom sockets a pb) = prebufferFmp4 pb"
  by (induction sockets arbitrary: pb) (simp_all add: writeAtom_def)

lemma evict_dropWhile: "evict bound ps = dropWhile (\<lambda>p. time p < bound) ps"
  by (induction ps) simp_all

lemma prebufferFmp4_storeAtom:
  "prebufferFmp4 (storeAtom a now pb) =
     (if ftyp pb = None \<or> moov pb = None then prebufferFmp4 pb
      else prebufferFmp4 pb @ [\<lparr>atom = a, time = now\<rparr>])"
  by (simp add: storeAtom_def Let_def)

lemma prebufferFmp4_ingest:
  "prebufferFmp4 (ingest pb (a, now)) =
     evict (now - DEFAULT_PREBUFFER_DURATION) (prebufferFmp4 (storeAtom a now pb))"
  by (simp add: ingest_def Let_def prebufferFmp4_emitAtom)

lemma sorted_dropWhile_fresh:
  "sorted (map time ps) \<Longrightarrow> \<forall>p \<in> set (dropWhile (\<lambda>p. time p < bound) ps). bound \<le> time p"
proof (induction ps)
  case Nil
  then show ?case by simp
next
  case (Cons p ps)
  then show ?case by (auto simp: not_less)
qed

lemma sorted_map_dropWhile: "sorted (map f ps) \<Longrightarrow> sorted (map f (dropWhile P ps))"
  by (induction ps) simp_all

lemma ingest_retained:
  assumes "retained_ok pb t" and "t \<le> now"
  shows "retained_ok (ingest pb (a, now)) now
     \<and> (\<forall>p \<in> set (prebufferFmp4 (ingest pb (a, now))). now - DEFAULT_PREBUFFER_DURATION \<le> time p)"
proof -
  let ?stored = "prebufferFmp4 (storeAtom a now pb)"
  let ?old = "\<lambda>p. time p < now - DEFAULT_PREBUFFER_DURATION"
  from assms have s: "sorted (map time ?stored)" and b: "\<forall>p \<in> set ?stored. time p \<le> now"
    by (auto simp: retained_ok_def list_all_iff prebufferFmp4_storeAtom sorted_append)
  have e: "prebufferFmp4 (ingest pb (a, now)) = dropWhile ?old ?stored"
    by (simp add: prebufferFmp4_ingest evict_dropWhile)
  have "sorted (map time (dropWhile ?old ?stored))"
    using s by (rule sorted_map_dropWhile)
  moreover have "\<forall>p \<in> set (dropWhile ?old ?stored). time p \<le> now"
    using b set_dropWhileD by fast
  ultimately show ?thesis
    using sorted_dropWhile_fresh [OF s] unfolding e retained_ok_def list_all_iff by blast
qed

lemma ingestAll_retained:
  assumes "retained_ok pb t" and "sorted (map snd arrivals)" and "\<forall>x \<in> set arrivals. t \<le> snd x"
  shows "retained_ok (ingestAll pb arrivals) (if arrivals = [] then t else snd (last arrivals))
     \<and> (arrivals \<noteq> [] \<longrightarrow> (\<forall>p \<in> set (prebufferFmp4 (ingestAll pb arrivals)).
            snd (last arrivals) - DEFAULT_PREBUFFER_DURATION \<le> time p))"
  using assms
proof (induction arrivals rule: rev_induct)
  case Nil
  then show ?case by (simp add: ingestAll_def)
next
  case (snoc x xs)
  obtain a now where x: "x = (a, now)" by (cases x)
  from snoc.prems have sx: "sorted (map snd xs)" and lx: "\<forall>y \<in> set xs. t \<le> snd y"
      and le: "\<forall>y \<in> set xs. snd y \<le> now" and tn: "t \<le> now"
    by (auto simp: sorted_append x)
  from snoc.IH [OF snoc.prems(1) sx lx]
  have r: "retained_ok (ingestAll pb xs) (if xs = [] then t else snd (last xs))" by simp
  have "(if xs = [] then t else snd (last xs)) \<le> now"
    using tn le by auto
  from ingest_retained [OF r this, of a]
  show ?case by (simp add: ingestAll_def x)
qed

text \<open>
  C4, as stated, fails when an observation time is earlier than the one before it
  (\<open>Date.now()\<close> reads the system clock, which can be set back). The loop evicts from
  the head only: after arrivals at 20000, 1000 and 30000 the head (20000) is within the
  window of the last one, so the fragment observed at 1000 stays behind it although
  \<open>1000 < 30000 - 15000\<close>.
\<close>

theorem prebuffer_retention_counterexample:
  "map time (prebufferFmp4 (ingestAll newPreBuffer ex_stepped_arrivals)) = [20000, 1000, 30000]
   \<and> \<not> list_all (\<lambda>p. 30000 - 15000 \<le> time p)
         (prebufferFmp4 (ingestAll newPreBuffer ex_stepped_arrivals))"
  by code_simp

text \<open>
  C4, amended. When the observation times never decrease from one arrival to the next,
  then right after the ingestion loop has processed an atom that arrived at time \<open>now\<close>
  (whatever arrived before it, starting from a new prebuffer), every fragment retained
  in \<open>prebufferFmp4\<close> has \<open>time \<ge> now - 15000\<close>. The eviction is part of the step
  \<open>ingest\<close> itself and removes from the head of the sequence only.
\<close>

theorem prebuffer_retention:
  assumes "sorted (map snd (arrivals @ [(a, now)]))"
  shows "\<forall>p \<in> set (prebufferFmp4 (ingestAll newPreBuffer (arrivals @ [(a, now)]))).
           now - 15000 \<le> time p"
proof -
  define t where "t = (if arrivals = [] then now else snd (hd arrivals))"
  have "retained_ok newPreBuffer t"
    by (simp add: retained_ok_def newPreBuffer_def)
  moreover have "\<forall>x \<in> set (arrivals @ [(a, now)]). t \<le> snd x"
    using assms by (cases arrivals) (auto simp: t_def sorted_append)
  ultimately show ?thesis
    using ingestAll_retained [OF _ assms, of newPreBuffer t]
    by (simp add: DEFAULT_PREBUFFER_DURATION_def)
qed

theorem prebuffer_retention_witness:
  "sorted (map snd (ex_arrivals @ [(ex_moof, 18000)]))
   \<and> map time (prebufferFmp4 (ingestAll newPreBuffer (ex_arrivals @ [(ex_moof, 18000)])))
       = [6990, 7001, 9000, 9001, 18000]
   \<and> list_all (\<lambda>p. 18000 - 15000 \<le> time p)
       (prebufferFmp4 (ingestAll newPreBuffer (ex_arrivals @ [(ex_moof, 18000)])))"
proof -
  have s: "sorted (map snd (ex_arrivals @ [(ex_moof, 18000)]))"
    by code_simp
  have r: "map time (prebufferFmp4 (ingestAll newPreBuffer (ex_arrivals @ [(ex_moof, 18000)])))
       = [6990, 7001, 9000, 9001, 18000]"
    by code_simp
  from prebuffer_retention [OF s] s r show ?thesis
    by (simp only: list_all_iff simp_thms)
qed

lemma sendPrebuffered_False:
  "sendPrebuffered bound False ps = map atom (filter (\<lambda>p. \<not> time p < bound) ps)"
  by (induction ps) simp_all

lemma sendPrebuffered_True:
  "sendPrebuffered bound True ps =
     map atom (dropWhile (\<lambda>p. atom_type (atom p) \<noteq> ''moof'') (filter (\<lambda>p. \<not> time p < bound) ps))"
  by (induction ps) (simp_all add: sendPrebuffered_False)

lemma filter_fresh_sorted:
  "sorted (map time ps) \<Longrightarrow> filter (\<lambda>p. \<not> time p < bound) ps = dropWhile (\<lambda>p. time p < bound) ps"
proof (induction ps)
  case Nil
  then show ?case by simp
next
  case (Cons p ps)
  show ?case
  proof (cases "time p < bound")
    case True
    with Cons show ?thesis by simp
  next
    case False
    with Cons.prems have "\<forall>q \<in> set ps. \<not> time q < bound" by auto
    then have "filter (\<lambda>p. \<not> time p < bound) ps = ps" by (simp add: filter_id_conv)
    with False show ?thesis by simp
  qed
qed

lemma written_writeAtoms:
  "written (writeAtoms socket as pb) socket = written pb socket @ map atomBytes as"
  by (induction as arbitrary: pb) (simp_all add: writeAtom_def)

lemma written_getVideo:
  "written (getVideo pb socket requestedPrebuffer now) socket
     = written pb socket @ map atomBytes (getVideoAtoms pb requestedPrebuffer now)"
  by (simp add: getVideo_def Let_def written_writeAtoms)

text \<open>
  C5, as stated, fails in its last part when the retained times are not in order: with
  a \<open>moof\<close> observed at 9000 followed by an \<open>mdat\<close> observed at 5000 (the clock was
  set back), a consumer connecting at 12000 with a window of 5000 is written \<open>ftyp\<close>,
  \<open>moov\<close> and the \<open>moof\<close>, and the \<open>mdat\<close> that follows the \<open>moof\<close> in the retained
  sequence is skipped as too old.
\<close>

theorem getVideo_delivery_order_counterexample:
  "ftyp ex_stepped_prebuffer = Some ex_ftyp \<and> moov ex_stepped_prebuffer = Some ex_moov
   \<and> map (\<lambda>p. (atom_type (atom p), time p)) (prebufferFmp4 ex_stepped_prebuffer)
       = [(''moof'', 9000), (''mdat'', 5000)]
   \<and> getVideoAtoms ex_stepped_prebuffer 5000 12000 = [ex_ftyp, ex_moov, ex_moof]
   \<and> getVideoAtoms ex_stepped_prebuffer 5000 12000 \<noteq> [ex_ftyp, ex_moov, ex_moof, ex_mdat]
   \<and> written (getVideo ex_stepped_prebuffer 7 5000 12000) 7
       = [[0, 0, 0, 9, 0x66, 0x74, 0x79, 0x70, 1],
          [0, 0, 0, 9, 0x6D, 0x6F, 0x6F, 0x76, 2],
          [0, 0, 0, 9, 0x6D, 0x6F, 0x6F, 0x66, 3]]"
  by code_simp

text \<open>
  C5, amended. When both initialization atoms are set, the consumer's socket is
  written, one write per atom and each write the atom's header followed by its payload:
  the \<open>ftyp\<close> atom, then the \<open>moov\<close> atom, then the retained fragments that are left
  after every fragment older than \<open>now - requestedPrebuffer\<close> is skipped and then those
  before the first \<open>moof\<close> are skipped; so the first fragment written after the
  preamble, if any, is a \<open>moof\<close>, and after it every retained fragment that is not
  older than \<open>now - requestedPrebuffer\<close> is written, in order. When the retained times
  never decrease along the sequence, what is written after the preamble is exactly the
  retained sequence from that \<open>moof\<close> to its end.
\<close>

theorem getVideo_delivery_order:
  assumes "ftyp pb = Some f" and "moov pb = Some m"
  shows "written (getVideo pb socket requestedPrebuffer now) socket
           = written pb socket
             @ map (\<lambda>a. header a @ data a) (getVideoAtoms pb requestedPrebuffer now)
     \<and> getVideoAtoms pb requestedPrebuffer now =
         f # m # map atom (dropWhile (\<lambda>p. atom_type (atom p) \<noteq> ''moof'')
                   (filter (\<lambda>p. \<not> time p < now - requestedPrebuffer) (prebufferFmp4 pb)))
     \<and> (\<forall>a rest. getVideoAtoms pb requestedPrebuffer now = f # m # a # rest
            \<longrightarrow> atom_type a = ''moof'')
     \<and> (sorted (map time (prebufferFmp4 pb)) \<longrightarrow>
          (\<exists>skipped delivered.
              prebufferFmp4 pb = skipped @ delivered
            \<and> getVideoAtoms pb requestedPrebuffer now = f # m # map atom delivered
            \<and> (\<forall>p \<in> set delivered. \<not> time p < now - requestedPrebuffer)
            \<and> (delivered \<noteq> [] \<longrightarrow> atom_type (atom (hd delivered)) = ''moof'')))"
proof -
  let ?old = "\<lambda>p. time p < now - requestedPrebuffer"
  let ?notMoof = "\<lambda>p. atom_type (atom p) \<noteq> ''moof''"
  let ?ps = "prebufferFmp4 pb"
  let ?sent = "dropWhile ?notMoof (filter (\<lambda>p. \<not> ?old p) ?ps)"
  have bytes: "written (getVideo pb socket requestedPrebuffer now) socket
           = written pb socket
             @ map (\<lambda>a. header a @ data a) (getVideoAtoms pb requestedPrebuffer now)"
    using written_getVideo [of pb socket requestedPrebuffer now]
    by (simp add: atomBytes_def [abs_def])
  have eq: "getVideoAtoms pb requestedPrebuffer now = f # m # map atom ?sent"
    using assms by (simp add: getVideoAtoms_def sendPrebuffered_True)
  have first: "\<forall>a rest. getVideoAtoms pb requestedPrebuffer now = f # m # a # rest
            \<longrightarrow> atom_type a = ''moof''"
  proof (intro allI impI)
    fix a rest
    assume g: "getVideoAtoms pb requestedPrebuffer now = f # m # a # rest"
    define sent where "sent = ?sent"
    from g eq have ar: "map atom sent = a # rest"
      by (simp add: sent_def)
    then obtain z zs where z: "sent = z # zs" and az: "a = atom z"
      by (cases sent) auto
    from z have "sent \<noteq> []"
      by simp
    then have ne: "?sent \<noteq> []"
      unfolding sent_def .
    from hd_dropWhile [OF ne] have "atom_type (atom (hd sent)) = ''moof''"
      unfolding sent_def by simp
    with z az show "atom_type a = ''moof''"
      by simp
  qed
  have "\<exists>skipped delivered.
              ?ps = skipped @ delivered
            \<and> getVideoAtoms pb requestedPrebuffer now = f # m # map atom delivered
            \<and> (\<forall>p \<in> set delivered. \<not> ?old p)
            \<and> (delivered \<noteq> [] \<longrightarrow> atom_type (atom (hd delivered)) = ''moof'')"
    if s: "sorted (map time ?ps)"
  proof -
    let ?fresh = "dropWhile ?old ?ps"
    let ?delivered = "dropWhile ?notMoof ?fresh"
    have f: "filter (\<lambda>p. \<not> ?old p) ?ps = ?fresh"
      using s by (rule filter_fresh_sorted)
    have split: "?ps = (takeWhile ?old ?ps @ takeWhile ?notMoof ?fresh) @ ?delivered"
      by simp
    have written: "getVideoAtoms pb requestedPrebuffer now = f # m # map atom ?delivered"
      unfolding eq f ..
    have fresh: "\<forall>p \<in> set ?delivered. \<not> ?old p"
    proof
      fix p assume "p \<in> set ?delivered"
      then have "p \<in> set ?fresh" by (rule set_dropWhileD)
      then have "p \<in> set (filter (\<lambda>p. \<not> ?old p) ?ps)" by (simp only: f)
      then show "\<not> ?old p" by simp
    qed
    have hd: "?delivered \<noteq> [] \<longrightarrow> atom_type (atom (hd ?delivered)) = ''moof''"
      using hd_dropWhile [of ?notMoof ?fresh] by blast
    from split written fresh hd show ?thesis
      by (intro exI [of _ "takeWhile ?old ?ps @ takeWhile ?notMoof ?fresh"] exI [of _ ?delivered] conjI)
  qed
  with bytes eq first show ?thesis
    by blast
qed

theorem getVideo_delivery_order_witness:
  "ftyp ex_prebuffer = Some ex_ftyp \<and> moov ex_prebuffer = Some ex_moov
   \<and> map (\<lambda>p. (atom_type (atom p), time p)) (prebufferFmp4 ex_prebuffer)
       = [(''moof'', 2000), (''mdat'', 2001), (''moof'', 6990), (''mdat'', 7001),
          (''moof'', 9000), (''mdat'', 9001)]
   \<and> getVideoAtoms ex_prebuffer 5000 12000 = [ex_ftyp, ex_moov, ex_moof2, ex_mdat2]
   \<and> written (getVideo ex_prebuffer 7 5000 12000) 7
       = [[0, 0, 0, 9, 0x66, 0x74, 0x79, 0x70, 1],
          [0, 0, 0, 9, 0x6D, 0x6F, 0x6F, 0x76, 2],
          [0, 0, 0, 9, 0x6D, 0x6F, 0x6F, 0x66, 6],
          [0, 0, 0, 9, 0x6D, 0x64, 0x61, 0x74, 7]]"
proof -
  have f: "ftyp ex_prebuffer = Some ex_ftyp" and m: "moov ex_prebuffer = Some ex_moov"
    by code_simp+
  have ps: "map (\<lambda>p. (atom_type (atom p), time p)) (prebufferFmp4 ex_prebuffer)
       = [(''moof'', 2000), (''mdat'', 2001), (''moof'', 6990), (''mdat'', 7001),
          (''moof'', 9000), (''mdat'', 9001)]"
    by code_simp
  have w0: "written ex_prebuffer 7 = []"
    by code_simp
  have d: "ex_ftyp # ex_moov # map atom (dropWhile (\<lambda>p. atom_type (atom p) \<noteq> ''moof'')
               (filter (\<lambda>p. \<not> time p < 12000 - 5000) (prebufferFmp4 ex_prebuffer)))
       = [ex_ftyp, ex_moov, ex_moof2, ex_mdat2]"
    by code_simp
  have b: "map (\<lambda>a. header a @ data a) [ex_ftyp, ex_moov, ex_moof2, ex_mdat2]
       = [[0, 0, 0, 9, 0x66, 0x74, 0x79, 0x70, 1],
          [0, 0, 0, 9, 0x6D, 0x6F, 0x6F, 0x76, 2],
          [0, 0, 0, 9, 0x6D, 0x6F, 0x6F, 0x66, 6],
          [0, 0, 0, 9, 0x6D, 0x64, 0x61, 0x74, 7]]"
    by code_simp
  from getVideo_delivery_order [OF f m, of 7 5000 12000]
  have g: "getVideoAtoms ex_prebuffer 5000 12000 = [ex_ftyp, ex_moov, ex_moof2, ex_mdat2]"
    and w: "written (getVideo ex_prebuffer 7 5000 12000) 7
        = written ex_prebuffer 7
          @ map (\<lambda>a. header a @ data a) (getVideoAtoms ex_prebuffer 5000 12000)"
    unfolding d by blast+
  from w have w': "written (getVideo ex_prebuffer 7 5000 12000) 7
       = [[0, 0, 0, 9, 0x66, 0x74, 0x79, 0x70, 1],
          [0, 0, 0, 9, 0x6D, 0x6F, 0x6F, 0x76, 2],
          [0, 0, 0, 9, 0x6D, 0x6F, 0x6F, 0x66, 6],
          [0, 0, 0, 9, 0x6D, 0x64, 0x61, 0x74, 7]]"
    unfolding g w0 b by simp
  from f m ps g w' show ?thesis
    by (simp only: simp_thms)
qed

section \<open>Properties of the resolution negotiation\<close>



text \<open>
  C9, as stated, fails for a live-stream request under a forced custom resolution: with
  maxima 1920x1080 and \<open>resolutionMode = force-custom\<close>, custom dimensions 640x480, a
  request of 2560x1440 exceeds the maxima and resolves to 640x480, not to 1920x1080.
  (The HomeKit limits are taken as 1920x1080 here; the result is the same for any
  limits of at least 640x480.)
\<close>

theorem determineResolution_force_custom_counterexample:
  "determineResolution 1920 1080
     \<lparr>maxWidth = Some 1920, maxHeight = Some 1080, resolutionMode = Some ''force-custom'',
      customWidth = Some 640, customHeight = Some 480\<rparr>
     \<lparr>width = 2560, height = 1440\<rparr> False
   = \<lparr>res_width = 640, res_height = 480\<rparr>
   \<and> determineResolution 1920 1080
     \<lparr>maxWidth = Some 1920, maxHeight = Some 1080, resolutionMode = Some ''force-custom'',
      customWidth = Some 640, customHeight = Some 480\<rparr>
     \<lparr>width = 2560, height = 1440\<rparr> False
   \<noteq> \<lparr>res_width = 1920, res_height = 1080\<rparr>"
  by (simp add: determineResolution_def Let_def effectiveMaxWidth_def effectiveMaxHeight_def
        effectiveMode_def orElse_def customDimensions_def)

text \<open>
  C9, amended. In every mode the resolved dimensions never exceed the maxima (the
  configured \<open>maxWidth\<close> and \<open>maxHeight\<close>, capped by the HomeKit limits). Whenever the
  request is not replaced by a forced custom resolution (a snapshot request, or a mode
  other than \<open>force-custom\<close>, or custom dimensions not both set), a requested dimension
  that exceeds its maximum is reduced to that maximum. In particular, with
  \<open>maxWidth = 1920\<close> and \<open>maxHeight = 1080\<close>, HomeKit limits at least as large and
  no forced custom resolution, a request of 2560x1440 resolves to 1920x1080.
\<close>

theorem determineResolution_clamps_to_maxima:
  "res_width (determineResolution hw hh cfg request isSnapshot) \<le> effectiveMaxWidth hw cfg
   \<and> res_height (determineResolution hw hh cfg request isSnapshot) \<le> effectiveMaxHeight hh cfg
   \<and> (isSnapshot \<or> effectiveMode cfg \<noteq> ''force-custom''
        \<or> customDimensions cfg = None \<longrightarrow>
       (width request > effectiveMaxWidth hw cfg \<longrightarrow>
          res_width (determineResolution hw hh cfg request isSnapshot) = effectiveMaxWidth hw cfg)
       \<and> (height request > effectiveMaxHeight hh cfg \<longrightarrow>
          res_height (determineResolution hw hh cfg request isSnapshot) = effectiveMaxHeight hh cfg)
       \<and> (1920 \<le> hw \<and> 1080 \<le> hh \<and> maxWidth cfg = Some 1920 \<and> maxHeight cfg = Some 1080
            \<and> request = \<lparr>width = 2560, height = 1440\<rparr> \<longrightarrow>
          determineResolution hw hh cfg request isSnapshot = \<lparr>res_width = 1920, res_height = 1080\<rparr>))"
proof -
  let ?r = "determineResolution hw hh cfg request isSnapshot"
  have bound: "res_width ?r \<le> effectiveMaxWidth hw cfg \<and> res_height ?r \<le> effectiveMaxHeight hh cfg"
    by (simp add: determineResolution_def Let_def)
  have clamp: "(width request > effectiveMaxWidth hw cfg \<longrightarrow> res_width ?r = effectiveMaxWidth hw cfg)
      \<and> (height request > effectiveMaxHeight hh cfg \<longrightarrow> res_height ?r = effectiveMaxHeight hh cfg)"
    if "isSnapshot \<or> effectiveMode cfg \<noteq> ''force-custom''
        \<or> customDimensions cfg = None"
    using that by (auto simp add: determineResolution_def Let_def)
  have scenario: "?r = \<lparr>res_width = 1920, res_height = 1080\<rparr>"
    if pol: "isSnapshot \<or> effectiveMode cfg \<noteq> ''force-custom''
        \<or> customDimensions cfg = None"
      and lim: "1920 \<le> hw" "1080 \<le> hh"
      and cfg: "maxWidth cfg = Some 1920" "maxHeight cfg = Some 1080"
      and req: "request = \<lparr>width = 2560, height = 1440\<rparr>"
  proof -
    have mw: "effectiveMaxWidth hw cfg = 1920"
      using lim cfg by (simp add: effectiveMaxWidth_def orElse_def)
    have mh: "effectiveMaxHeight hh cfg = 1080"
      using lim cfg by (simp add: effectiveMaxHeight_def orElse_def)
    have "res_width ?r = 1920" and "res_height ?r = 1080"
      using clamp [OF pol] mw mh req by simp_all
    then show ?thesis
      by (cases ?r) simp
  qed
  from bound clamp scenario show ?thesis
    by blast
qed

theorem determineResolution_clamps_to_maxima_witness:
  "determineResolution 1920 1080
     \<lparr>maxWidth = Some 1920, maxHeight = Some 1080, resolutionMode = None,
      customWidth = None, customHeight = None\<rparr>
     \<lparr>width = 2560, height = 1440\<rparr> False
   = \<lparr>res_width = 1920, res_height = 1080\<rparr>"
  using determineResolution_clamps_to_maxima
          [of 1920 1080
              "\<lparr>maxWidth = Some 1920, maxHeight = Some 1080, resolutionMode = None,
                customWidth = None, customHeight = None\<rparr>"
              "\<lparr>width = 2560, height = 1440\<rparr>" False]
  by (simp add: effectiveMode_def)

section \<open>Properties of starting the prebuffer\<close>






section \<open>Properties of the event stream parser\<close>

lemma execAll_VideoMotion:
  "execAll ''Code=VideoMotion;action=Start;index=4'' = [(''VideoMotion'', ''Start'', ''4'')]"
  by code_simp

lemma execAll_VideoLoss:
  "execAll ''Code=VideoLoss;action=Start;index=0'' = [(''VideoLoss'', ''Start'', ''0'')]"
  by code_simp

lemma parseInt_4: "parseInt ''4'' = 4"
  by code_simp

lemma parseInt_0: "parseInt ''0'' = 0"
  by code_simp

lemma toLowerCase_Start: "toLowerCase ''Start'' = ''start''"
  by code_simp

lemma VideoMotion_supported: "''VideoMotion'' \<in> set dahuaMotionEvents"
  by code_simp

lemma VideoLoss_unsupported: "''VideoLoss'' \<notin> set dahuaMotionEvents"
  by code_simp

text \<open>
  C7. Fed to a parser with an empty buffer, whatever its registry of listeners, the
  chunk \<open>Code=VideoMotion;action=Start;index=4\<close> dispatches exactly one motion event,
  with channel 5, event type \<open>VideoMotion\<close> and \<open>active\<close> true, and calls with it the
  callbacks registered for channel 5, in their order, and no other callback; the chunk
  \<open>Code=VideoLoss;action=Start;index=0\<close> dispatches no event and calls no callback.
\<close>

theorem handleChunk_scenario:
  "snd (handleChunk (ev\<lparr>buffer := []\<rparr>) ''Code=VideoMotion;action=Start;index=4'')
     = ([\<lparr>channel = 5, eventType = ''VideoMotion'', active = True\<rparr>],
        map (\<lambda>callback. (callback, \<lparr>channel = 5, eventType = ''VideoMotion'', active = True\<rparr>))
          (case listeners ev 5 of None \<Rightarrow> [] | Some callbacks \<Rightarrow> callbacks))
   \<and> snd (handleChunk (ev\<lparr>buffer := []\<rparr>) ''Code=VideoLoss;action=Start;index=0'') = ([], [])"
proof -
  have motion: "parseEvent (ev\<lparr>buffer := []\<rparr>) ''VideoMotion'' ''Start'' 4
     = ([\<lparr>channel = 5, eventType = ''VideoMotion'', active = True\<rparr>],
        map (\<lambda>callback. (callback, \<lparr>channel = 5, eventType = ''VideoMotion'', active = True\<rparr>))
          (case listeners ev 5 of None \<Rightarrow> [] | Some callbacks \<Rightarrow> callbacks))"
    using VideoMotion_supported
    by (simp add: parseEvent_def Let_def toLowerCase_Start notifyListeners_def split: option.splits)
  have loss: "parseEvent (ev\<lparr>buffer := []\<rparr>) ''VideoLoss'' ''Start'' 0 = ([], [])"
    using VideoLoss_unsupported by (simp add: parseEvent_def Let_def)
  show ?thesis
    by (simp add: handleChunk_def Let_def execAll_VideoMotion execAll_VideoLoss
          parseInt_4 parseInt_0 motion loss del: execAll.simps)
qed

theorem handleChunk_scenario_witness:
  "snd (handleChunk ex_events ''Code=VideoMotion;action=Start;index=4'')
     = ([\<lparr>channel = 5, eventType = ''VideoMotion'', active = True\<rparr>],
        [(0, \<lparr>channel = 5, eventType = ''VideoMotion'', active = True\<rparr>),
         (1, \<lparr>channel = 5, eventType = ''VideoMotion'', active = True\<rparr>)])
   \<and> snd (handleChunk ex_events ''Code=VideoLoss;action=Start;index=0'') = ([], [])"
proof -
  have b: "ex_events\<lparr>buffer := []\<rparr> = ex_events"
    by (simp add: ex_events_def onMotion_def newDahuaEvents_def)
  have l: "listeners ex_events 5 = Some [0, 1]"
    by (simp add: ex_events_def onMotion_def newDahuaEvents_def)
  from handleChunk_scenario [of ex_events] show ?thesis
    unfolding b l by simp
qed

end
